theory Spec2Isabelle
  imports Main "HOL-Library.Word"
begin

unbundle bit_operations_syntax

section \<open>Host-language values\<close>

text \<open>
  The codec of \<^verbatim>\<open>SithasoLayoutEngine.js\<close> (classes \<^verbatim>\<open>BinaryReader\<close>,
  \<^verbatim>\<open>BinaryWriter\<close> and \<^verbatim>\<open>BJLConverter\<close>) is embedded function by function.
  A JavaScript string is its list of UTF-16 code units; \<^verbatim>\<open>text.length\<close> is the length of
  that list.
\<close>

type_synonym byte = "8 word"
type_synonym jsstring = "16 word list"

definition js :: "string \<Rightarrow> jsstring" where
  "js s = map of_char s"

text \<open>
  A number is a double. It is kept as \<open>NInt i\<close> when it is integral and as \<open>NFlt d\<close>,
  its 64-bit pattern, otherwise (negative zero, the infinities and NaN are \<open>NFlt\<close>).
  The codec reads four things of a number: \<^verbatim>\<open>Number.isInteger\<close>, \<^verbatim>\<open>v | 0\<close>,
  \<^verbatim>\<open>setFloat32\<close> and truthiness.
\<close>

datatype jsnum = NInt int | NFlt "64 word"

datatype jsval =
    JUndefined
  | JNull
  | JBool bool
  | JNum jsnum
  | JStr jsstring
  | JArray "jsval list"
  | JObject "(jsstring \<times> jsval) list"

text \<open>An object is the list of its own properties in creation order.\<close>

type_synonym props = "(jsstring \<times> jsval) list"

subsection \<open>float32\<close>

definition f32_exp :: "32 word \<Rightarrow> nat" where
  "f32_exp w = unat (take_bit 8 (drop_bit 23 w))"

definition f32_man :: "32 word \<Rightarrow> nat" where
  "f32_man w = unat (take_bit 23 w)"

definition f32_neg :: "32 word \<Rightarrow> bool" where
  "f32_neg w = bit w 31"

definition f32_is_nan :: "32 word \<Rightarrow> bool" where
  "f32_is_nan w = (f32_exp w = 255 \<and> f32_man w \<noteq> 0)"

definition f32_is_zero :: "32 word \<Rightarrow> bool" where
  "f32_is_zero w = (f32_exp w = 0 \<and> f32_man w = 0)"

definition f32_trunc :: "32 word \<Rightarrow> int" where
  \<comment> \<open>the value rounded towards zero; 0 for NaN and the infinities, as ToInt32 takes them\<close>
  "f32_trunc w =
     (let e = f32_exp w; q = 2 ^ 23 + f32_man w;
          mag = (if e = 255 \<or> e < 127 then 0
                 else if 150 \<le> e then q * 2 ^ (e - 150)
                 else q div 2 ^ (150 - e))
      in if f32_neg w then - int mag else int mag)"

definition f32_integral :: "32 word \<Rightarrow> bool" where
  "f32_integral w =
     (let e = f32_exp w
      in f32_is_zero w \<or>
         (127 \<le> e \<and> e < 255 \<and> (150 \<le> e \<or> (2 ^ 23 + f32_man w) mod 2 ^ (150 - e) = 0)))"

fun bitlen :: "nat \<Rightarrow> nat" where
  "bitlen n = (if n = 0 then 0 else Suc (bitlen (n div 2)))"

declare bitlen.simps [simp del]

subsection \<open>Doubles\<close>

definition f64_exp :: "64 word \<Rightarrow> nat" where
  "f64_exp d = unat (take_bit 11 (drop_bit 52 d))"

definition f64_man :: "64 word \<Rightarrow> nat" where
  "f64_man d = unat (take_bit 52 d)"

definition f64_neg :: "64 word \<Rightarrow> bool" where
  "f64_neg d = bit d 63"

definition f64_is_nan :: "64 word \<Rightarrow> bool" where
  "f64_is_nan d = (f64_exp d = 2047 \<and> f64_man d \<noteq> 0)"

definition f64_is_zero :: "64 word \<Rightarrow> bool" where
  "f64_is_zero d = (f64_exp d = 0 \<and> f64_man d = 0)"

definition f64_trunc :: "64 word \<Rightarrow> int" where
  \<comment> \<open>the value rounded towards zero; 0 for NaN and the infinities, as ToInt32 takes them\<close>
  "f64_trunc d =
     (let e = f64_exp d; q = 2 ^ 52 + f64_man d;
          mag = (if e = 2047 \<or> e < 1023 then 0
                 else if 1075 \<le> e then q * 2 ^ (e - 1075)
                 else q div 2 ^ (1075 - e))
      in if f64_neg d then - int mag else int mag)"

definition f64_integral :: "64 word \<Rightarrow> bool" where
  "f64_integral d =
     (let e = f64_exp d
      in f64_is_zero d \<or>
         (1023 \<le> e \<and> e < 2047 \<and> (1075 \<le> e \<or> (2 ^ 52 + f64_man d) mod 2 ^ (1075 - e) = 0)))"

subsection \<open>Conversion between doubles and float32\<close>

definition rne :: "nat \<Rightarrow> int \<Rightarrow> nat" where
  \<comment> \<open>\<open>a * 2^s\<close> rounded to the nearest integer, ties to even\<close>
  "rne a s =
     (if 0 \<le> s then a * 2 ^ nat s
      else
        let d = 2 ^ nat (- s); q = a div d; rest = a mod d
        in if d < 2 * rest \<or> (2 * rest = d \<and> odd q) then q + 1 else q)"

definition float32_of_dyadic :: "bool \<Rightarrow> nat \<Rightarrow> int \<Rightarrow> 32 word" where
  \<comment> \<open>the float32 nearest to \<open>a * 2^k\<close> (\<open>a\<close> positive), with the sign given: the quantum is
      \<open>2^(E - 23)\<close> for a normal result and \<open>2^(-149)\<close> below; a mantissa that rounds up to
      \<open>2^24\<close> carries into the exponent field, and past the largest exponent the result is
      the infinity\<close>
  "float32_of_dyadic neg a k =
     (let E = int (bitlen a) - 1 + k;
          qe = max (E - 23) (- 149);
          q = rne a (k - qe);
          bits = nat (max (E + 126) 0) * 2 ^ 23 + q;
          s = (if neg then 0x80000000 else 0 :: 32 word)
      in s OR (if 2139095040 \<le> bits then 0x7F800000 else of_nat bits))"

definition float32_of_int :: "int \<Rightarrow> 32 word" where
  \<comment> \<open>what \<^verbatim>\<open>setFloat32\<close> stores for an integral number: round to nearest, ties to even\<close>
  "float32_of_int i = (if i = 0 then 0 else float32_of_dyadic (i < 0) (nat \<bar>i\<bar>) 0)"

definition float32_of_double :: "64 word \<Rightarrow> 32 word" where
  \<comment> \<open>what \<^verbatim>\<open>setFloat32\<close> stores for the double \<open>d\<close>\<close>
  "float32_of_double d =
     (let s = (if f64_neg d then 0x80000000 else 0 :: 32 word)
      in if f64_is_nan d then 0x7FC00000
         else if f64_exp d = 2047 then s OR 0x7F800000
         else if f64_is_zero d then s
         else float32_of_dyadic (f64_neg d)
                (if f64_exp d = 0 then f64_man d else 2 ^ 52 + f64_man d)
                (int (max (f64_exp d) 1) - 1075))"

definition double_of_float32 :: "32 word \<Rightarrow> 64 word" where
  \<comment> \<open>the double equal to the float32 \<open>w\<close>\<close>
  "double_of_float32 w =
     (let e = f32_exp w; m = f32_man w;
          s = (if f32_neg w then 0x8000000000000000 else 0 :: 64 word)
      in if e = 255 then (if m = 0 then s OR 0x7FF0000000000000 else 0x7FF8000000000000)
         else if e = 0 \<and> m = 0 then s
         else
           let a = (if e = 0 then m else 2 ^ 23 + m); n = bitlen a - 1
           in s OR push_bit 52 (of_nat (n + max e 1 + 873)) OR of_nat ((a - 2 ^ n) * 2 ^ (52 - n)))"

definition number_of_float32 :: "32 word \<Rightarrow> jsnum" where
  \<comment> \<open>what \<^verbatim>\<open>getFloat32\<close> returns\<close>
  "number_of_float32 w =
     (if f32_integral w \<and> w \<noteq> 0x80000000 then NInt (f32_trunc w)
      else NFlt (double_of_float32 w))"

definition float32_of_num :: "jsnum \<Rightarrow> 32 word" where
  "float32_of_num x = (case x of NInt i \<Rightarrow> float32_of_int i | NFlt d \<Rightarrow> float32_of_double d)"

definition isInteger :: "jsnum \<Rightarrow> bool" where
  \<comment> \<open>\<^verbatim>\<open>Number.isInteger\<close>\<close>
  "isInteger x = (case x of NInt i \<Rightarrow> True | NFlt d \<Rightarrow> f64_integral d)"

definition toInt32 :: "jsnum \<Rightarrow> 32 word" where
  \<comment> \<open>\<^verbatim>\<open>v | 0\<close>\<close>
  "toInt32 x = (case x of NInt i \<Rightarrow> word_of_int i | NFlt d \<Rightarrow> word_of_int (f64_trunc d))"

definition truthy_num :: "jsnum \<Rightarrow> bool" where
  "truthy_num x = (case x of NInt i \<Rightarrow> i \<noteq> 0 | NFlt d \<Rightarrow> \<not> f64_is_zero d \<and> \<not> f64_is_nan d)"

subsection \<open>UTF-8: \<^verbatim>\<open>TextEncoder\<close> and \<^verbatim>\<open>TextDecoder\<close>\<close>

definition is_high_surrogate :: "16 word \<Rightarrow> bool" where
  "is_high_surrogate u = (0xD800 \<le> u \<and> u \<le> 0xDBFF)"

definition is_low_surrogate :: "16 word \<Rightarrow> bool" where
  "is_low_surrogate u = (0xDC00 \<le> u \<and> u \<le> 0xDFFF)"

fun code_points :: "jsstring \<Rightarrow> nat list" where
  "code_points [] = []"
| "code_points [u] = (if is_high_surrogate u \<or> is_low_surrogate u then [0xFFFD] else [unat u])"
| "code_points (u # v # us) =
     (if is_high_surrogate u \<and> is_low_surrogate v
      then (0x10000 + (unat u - 0xD800) * 1024 + (unat v - 0xDC00)) # code_points us
      else if is_high_surrogate u \<or> is_low_surrogate u then 0xFFFD # code_points (v # us)
      else unat u # code_points (v # us))"

definition utf8_of_cp :: "nat \<Rightarrow> byte list" where
  "utf8_of_cp c =
     (if c < 0x80 then [of_nat c]
      else if c < 0x800 then [of_nat (0xC0 + c div 64), of_nat (0x80 + c mod 64)]
      else if c < 0x10000
        then [of_nat (0xE0 + c div 4096), of_nat (0x80 + c div 64 mod 64), of_nat (0x80 + c mod 64)]
      else [of_nat (0xF0 + c div 262144), of_nat (0x80 + c div 4096 mod 64),
            of_nat (0x80 + c div 64 mod 64), of_nat (0x80 + c mod 64)])"

definition utf8_encode :: "jsstring \<Rightarrow> byte list" where
  \<comment> \<open>\<^verbatim>\<open>new TextEncoder().encode(s)\<close>\<close>
  "utf8_encode s = concat (map utf8_of_cp (code_points s))"

function utf8_scan :: "nat \<Rightarrow> nat \<Rightarrow> byte \<Rightarrow> byte \<Rightarrow> byte list \<Rightarrow> nat list" where
  "utf8_scan cp need lo hi [] = (if need = 0 then [] else [0xFFFD])"
| "utf8_scan cp need lo hi (b # bs) =
     (if need = 0 then
        (if b \<le> 0x7F then unat b # utf8_scan 0 0 0x80 0xBF bs
         else if 0xC2 \<le> b \<and> b \<le> 0xDF then utf8_scan (unat (b AND 0x1F)) 1 0x80 0xBF bs
         else if 0xE0 \<le> b \<and> b \<le> 0xEF
           then utf8_scan (unat (b AND 0xF)) 2
                  (if b = 0xE0 then 0xA0 else 0x80) (if b = 0xED then 0x9F else 0xBF) bs
         else if 0xF0 \<le> b \<and> b \<le> 0xF4
           then utf8_scan (unat (b AND 7)) 3
                  (if b = 0xF0 then 0x90 else 0x80) (if b = 0xF4 then 0x8F else 0xBF) bs
         else 0xFFFD # utf8_scan 0 0 0x80 0xBF bs)
      else if b < lo \<or> hi < b then 0xFFFD # utf8_scan 0 0 0x80 0xBF (b # bs)
      else if need = 1 then (cp * 64 + unat (b AND 0x3F)) # utf8_scan 0 0 0x80 0xBF bs
      else utf8_scan (cp * 64 + unat (b AND 0x3F)) (need - 1) 0x80 0xBF bs)"
  by pat_completeness auto
termination
  by (relation "measure (\<lambda>(cp, need, lo, hi, bs). 2 * length bs + (if need = 0 then 0 else 1))") auto

definition utf16_of_cp :: "nat \<Rightarrow> jsstring" where
  "utf16_of_cp c =
     (if c < 0x10000 then [of_nat c]
      else [of_nat (0xD800 + (c - 0x10000) div 1024), of_nat (0xDC00 + (c - 0x10000) mod 1024)])"

definition utf8_decode :: "byte list \<Rightarrow> jsstring" where
  \<comment> \<open>\<^verbatim>\<open>new TextDecoder().decode(bytes)\<close>: replacement on error, a leading byte order mark dropped\<close>
  "utf8_decode bs =
     concat (map utf16_of_cp
       (utf8_scan 0 0 0x80 0xBF (if take 3 bs = [0xEF, 0xBB, 0xBF] then drop 3 bs else bs)))"

subsection \<open>Property order of objects\<close>

definition dec_val :: "jsstring \<Rightarrow> int" where
  "dec_val s = foldl (\<lambda>a c. 10 * a + (uint c - 48)) 0 s"

definition is_array_index :: "jsstring \<Rightarrow> bool" where
  \<comment> \<open>a canonical numeric string below \<open>2^32 - 1\<close>: such keys are enumerated first, ascending\<close>
  "is_array_index s =
     (s \<noteq> [] \<and> list_all (\<lambda>c. 48 \<le> c \<and> c \<le> 57) s \<and> (hd s \<noteq> 48 \<or> length s = 1)
      \<and> dec_val s < 4294967295)"

definition own_entries :: "(jsstring \<times> 'a) list \<Rightarrow> (jsstring \<times> 'a) list" where
  \<comment> \<open>the properties in the order \<^verbatim>\<open>Object.keys\<close> enumerates them\<close>
  "own_entries m =
     sort_key (\<lambda>kv. dec_val (fst kv)) (filter (\<lambda>kv. is_array_index (fst kv)) m)
     @ filter (\<lambda>kv. \<not> is_array_index (fst kv)) m"

fun dec_str :: "nat \<Rightarrow> jsstring" where
  "dec_str n = (if n < 10 then [of_nat (48 + n)] else dec_str (n div 10) @ [of_nat (48 + n mod 10)])"

declare dec_str.simps [simp del]

definition proto_names :: "jsstring list" where
  \<comment> \<open>the properties every object literal inherits from \<^verbatim>\<open>Object.prototype\<close>\<close>
  "proto_names = map js
     [''constructor'', ''__defineGetter__'', ''__defineSetter__'', ''hasOwnProperty'',
      ''__lookupGetter__'', ''__lookupSetter__'', ''isPrototypeOf'', ''propertyIsEnumerable'',
      ''toString'', ''valueOf'', ''__proto__'', ''toLocaleString'']"

definition get_prop :: "props \<Rightarrow> jsstring \<Rightarrow> jsval" where
  \<comment> \<open>\<^verbatim>\<open>val.ValueType\<close>, \<^verbatim>\<open>val.Value\<close>: an own property, else undefined\<close>
  "get_prop m k = (case map_of m k of Some v \<Rightarrow> v | None \<Rightarrow> JUndefined)"

definition obj_set :: "props \<Rightarrow> jsstring \<Rightarrow> jsval \<Rightarrow> props" where
  \<comment> \<open>\<^verbatim>\<open>map[key] = value\<close>; the key \<^verbatim>\<open>__proto__\<close> sets the prototype and creates no property\<close>
  "obj_set m k v =
     (if k = js ''__proto__'' then m
      else if k \<in> fst ` set m then map (\<lambda>(k', v'). if k' = k then (k', v) else (k', v')) m
      else m @ [(k, v)])"

section \<open>Outcomes\<close>

datatype error =
    RangeError
  | TypeError
  | UnsupportedVersion
  | CacheMiss jsstring
  | Unmodelled

text \<open>
  \<open>Throw\<close> is a raised exception. \<open>OutOfFuel\<close> is returned only by the map reader,
  whose loop the source does not bound. \<open>Unmodelled\<close> marks a coercion of a value to a
  number or a string that the embedding does not follow.
\<close>

datatype 'a outcome = Done 'a | Throw error | OutOfFuel

definition bind :: "'a outcome \<Rightarrow> ('a \<Rightarrow> 'b outcome) \<Rightarrow> 'b outcome" where
  "bind m f = (case m of Done x \<Rightarrow> f x | Throw e \<Rightarrow> Throw e | OutOfFuel \<Rightarrow> OutOfFuel)"

section \<open>BinaryReader\<close>

record reader =
  buffer :: "byte list"
  offset :: int

fun le_word :: "byte list \<Rightarrow> 'a::len word" where
  "le_word [] = 0"
| "le_word (b # bs) = ucast b OR push_bit 8 (le_word bs)"

fun le_bytes :: "nat \<Rightarrow> 'a::len word \<Rightarrow> byte list" where
  "le_bytes 0 w = []"
| "le_bytes (Suc n) w = ucast w # le_bytes n (drop_bit 8 w)"

definition in_bounds :: "reader \<Rightarrow> nat \<Rightarrow> bool" where
  \<comment> \<open>the \<^verbatim>\<open>DataView\<close> getters raise RangeError outside the view\<close>
  "in_bounds r n = (0 \<le> offset r \<and> offset r + int n \<le> int (length (buffer r)))"

definition view :: "reader \<Rightarrow> nat \<Rightarrow> byte list" where
  "view r n = take n (drop (nat (offset r)) (buffer r))"

definition readByte :: "reader \<Rightarrow> (int \<times> reader) outcome" where
  "readByte r =
     (if in_bounds r 1 then Done (uint (le_word (view r 1) :: byte), r\<lparr>offset := offset r + 1\<rparr>)
      else Throw RangeError)"

definition readSignedByte :: "reader \<Rightarrow> (int \<times> reader) outcome" where
  "readSignedByte r =
     (if in_bounds r 1 then Done (sint (le_word (view r 1) :: byte), r\<lparr>offset := offset r + 1\<rparr>)
      else Throw RangeError)"

definition readInt :: "reader \<Rightarrow> (int \<times> reader) outcome" where
  "readInt r =
     (if in_bounds r 4 then Done (sint (le_word (view r 4) :: 32 word), r\<lparr>offset := offset r + 4\<rparr>)
      else Throw RangeError)"

definition readFloat :: "reader \<Rightarrow> (jsnum \<times> reader) outcome" where
  "readFloat r =
     (if in_bounds r 4 then Done (number_of_float32 (le_word (view r 4)), r\<lparr>offset := offset r + 4\<rparr>)
      else Throw RangeError)"

definition js_slice :: "'a list \<Rightarrow> int \<Rightarrow> int \<Rightarrow> 'a list" where
  \<comment> \<open>\<^verbatim>\<open>Uint8Array.prototype.slice\<close>: negative positions count from the end, both are clamped\<close>
  "js_slice xs s e =
     (let n = int (length xs);
          k = (if s < 0 then max (n + s) 0 else min s n);
          f = (if e < 0 then max (n + e) 0 else min e n)
      in take (nat (f - k)) (drop (nat k) xs))"

definition readBytes :: "int \<Rightarrow> reader \<Rightarrow> (byte list \<times> reader) outcome" where
  \<comment> \<open>no bounds check: the offset moves by \<open>len\<close> whatever its sign\<close>
  "readBytes len r =
     Done (js_slice (buffer r) (offset r) (offset r + len), r\<lparr>offset := offset r + len\<rparr>)"

section \<open>Compression\<close>

record gzip_options =
  level :: nat
  mtime :: nat
  header_os :: nat

text \<open>
  The gzip library (pako) is outside the repository: \<open>gzip\<close> is a function of the options
  and the input, \<open>ungzip\<close> returns \<open>None\<close> where the library raises.
\<close>

record pako =
  gzip :: "gzip_options \<Rightarrow> byte list \<Rightarrow> byte list"
  ungzip :: "byte list \<Rightarrow> byte list option"

definition fastest :: gzip_options where
  \<comment> \<open>\<^verbatim>\<open>{ level: 1, mtime: 0, header: { os: 0 } }\<close>\<close>
  "fastest = \<lparr>level = 1, mtime = 0, header_os = 0\<rparr>"

definition CompressBytes :: "pako \<Rightarrow> byte list \<Rightarrow> byte list" where
  "CompressBytes P bytes = gzip P fastest bytes"

definition DecompressBytes :: "pako \<Rightarrow> byte list \<Rightarrow> byte list option" where
  "DecompressBytes P bytes = ungzip P bytes"

section \<open>The document\<close>

definition CINT :: int where "CINT = 1"
definition CSTRING :: int where "CSTRING = 2"
definition CMAP :: int where "CMAP = 3"
definition ENDOFMAP :: int where "ENDOFMAP = 4"
definition BOOL :: int where "BOOL = 5"
definition CCOLOR :: int where "CCOLOR = 6"
definition CFLOAT :: int where "CFLOAT = 7"
definition CACHED_STRING :: int where "CACHED_STRING = 9"
definition RECT32 :: int where "RECT32 = 11"
definition CNULL :: int where "CNULL = 12"

lemmas TYPE_CODES =
  CINT_def CSTRING_def CMAP_def ENDOFMAP_def BOOL_def CCOLOR_def CFLOAT_def
  CACHED_STRING_def RECT32_def CNULL_def

text \<open>A string read through a cache index is \<open>None\<close> (undefined) when the index is out of range.\<close>

record control =
  Name :: "jsstring option"
  JavaType :: "jsstring option"
  DesignerType :: "jsstring option"

record header =
  Version :: int
  GridSize :: int
  ControlsHeaders :: "control list"
  Files :: "jsstring list"
  DesignerScript :: "jsstring list"

record variant =
  Scale :: jsnum
  Width :: int
  Height :: int

record design =
  LayoutHeader :: header
  Variants :: "variant list"
  Data :: jsval
  FontAwesome :: bool
  MaterialIcons :: bool

section \<open>BJLConverter: decoding\<close>

definition readString :: "reader \<Rightarrow> (jsstring \<times> reader) outcome" where
  "readString r =
     bind (readInt r) (\<lambda>(len, r1).
     bind (readBytes len r1) (\<lambda>(b, r2).
     Done (utf8_decode b, r2)))"

fun readStrings :: "nat \<Rightarrow> reader \<Rightarrow> (jsstring list \<times> reader) outcome" where
  "readStrings 0 r = Done ([], r)"
| "readStrings (Suc n) r =
     bind (readString r) (\<lambda>(s, r1).
     bind (readStrings n r1) (\<lambda>(ss, r2).
     Done (s # ss, r2)))"

definition loadStringsCache :: "reader \<Rightarrow> (jsstring list \<times> reader) outcome" where
  \<comment> \<open>\<^verbatim>\<open>new Array(count)\<close> raises RangeError for a negative count\<close>
  "loadStringsCache r =
     bind (readInt r) (\<lambda>(count, r1).
     if count < 0 then Throw RangeError else readStrings (nat count) r1)"

definition array_get :: "'a list \<Rightarrow> int \<Rightarrow> 'a option" where
  "array_get xs i = (if 0 \<le> i \<and> i < int (length xs) then Some (xs ! nat i) else None)"

definition readCachedString :: "reader \<Rightarrow> jsstring list \<Rightarrow> (jsstring option \<times> reader) outcome" where
  "readCachedString r cache =
     (if length cache = 0 then bind (readString r) (\<lambda>(s, r1). Done (Some s, r1))
      else bind (readInt r) (\<lambda>(i, r1). Done (array_get cache i, r1)))"

definition key_of :: "jsstring option \<Rightarrow> jsstring" where
  \<comment> \<open>an undefined key is the property \<^verbatim>\<open>"undefined"\<close>\<close>
  "key_of k = (case k of Some s \<Rightarrow> s | None \<Rightarrow> js ''undefined'')"

definition str_val :: "jsstring option \<Rightarrow> jsval" where
  "str_val k = (case k of Some s \<Rightarrow> JStr s | None \<Rightarrow> JUndefined)"

definition hex_digit :: "nat \<Rightarrow> 16 word" where
  "hex_digit d = (if d < 10 then of_nat (48 + d) else of_nat (55 + d))"

definition hexFromBytes :: "byte list \<Rightarrow> jsstring" where
  "hexFromBytes d = concat (map (\<lambda>b. [hex_digit (unat b div 16), hex_digit (unat b mod 16)]) d)"

definition marked :: "int \<Rightarrow> jsval \<Rightarrow> jsval" where
  \<comment> \<open>\<^verbatim>\<open>{ ValueType: type, Value: v }\<close>\<close>
  "marked t v = JObject [(js ''ValueType'', JNum (NInt t)), (js ''Value'', v)]"

definition readShorts :: "byte list \<Rightarrow> jsval outcome" where
  \<comment> \<open>four \<^verbatim>\<open>getInt16\<close> over the slice, which raise when it is shorter than 8 bytes\<close>
  "readShorts d =
     (if length d < 8 then Throw RangeError
      else Done (JArray (map (\<lambda>i. JNum (NInt (sint (le_word (take 2 (drop i d)) :: 16 word))))
                   [0, 2, 4, 6])))"

fun readMap_loop :: "nat \<Rightarrow> reader \<Rightarrow> jsstring list \<Rightarrow> props \<Rightarrow> (props \<times> reader) outcome" where
  "readMap_loop 0 r cache m = OutOfFuel"
| "readMap_loop (Suc n) r cache m =
     bind (readCachedString r cache) (\<lambda>(key, r1).
     bind (readSignedByte r1) (\<lambda>(type, r2).
       if type = ENDOFMAP then Done (m, r2)
       else
         let store = (\<lambda>(v, r3). readMap_loop n r3 cache (obj_set m (key_of key) v)) in
         if type = CINT then bind (readInt r2) (\<lambda>(i, r3). store (JNum (NInt i), r3))
         else if type = CACHED_STRING
           then bind (readCachedString r2 cache) (\<lambda>(s, r3). store (str_val s, r3))
         else if type = CFLOAT
           then bind (readFloat r2) (\<lambda>(x, r3). store (marked type (JNum x), r3))
         else if type = CSTRING
           then bind (readString r2) (\<lambda>(s, r3). store (marked type (JStr s), r3))
         else if type = BOOL
           then bind (readSignedByte r2) (\<lambda>(b, r3). store (JBool (b = 1), r3))
         else if type = CMAP
           then bind (readMap_loop n r2 cache []) (\<lambda>(sub, r3). store (JObject sub, r3))
         else if type = CNULL
           then store (JObject [(js ''ValueType'', JNum (NInt type))], r2)
         else if type = CCOLOR
           then bind (readBytes 4 r2) (\<lambda>(d, r3).
                  store (marked type (JStr (js ''0x'' @ hexFromBytes d)), r3))
         else if type = RECT32
           then bind (readBytes 8 r2) (\<lambda>(d, r3).
                bind (readShorts d) (\<lambda>shorts. store (marked type shorts, r3)))
         else Done (m, r2)))"

definition readMap :: "nat \<Rightarrow> reader \<Rightarrow> jsstring list \<Rightarrow> (jsval \<times> reader) outcome" where
  "readMap fuel r cache = bind (readMap_loop fuel r cache []) (\<lambda>(m, r1). Done (JObject m, r1))"

function readVarint :: "reader \<Rightarrow> int \<Rightarrow> nat \<Rightarrow> (int \<times> reader) outcome" where
  "readVarint r len shift =
     (if in_bounds r 1 then
        (let b = le_word (view r 1) :: byte; v = b AND 0x7F;
             len' = len + sint (push_bit (shift mod 32) (ucast v :: 32 word));
             r' = r\<lparr>offset := offset r + 1\<rparr>
         in if b = v then Done (len', r') else readVarint r' len' (shift + 7))
      else Throw RangeError)"
  by pat_completeness auto
termination
  by (relation "measure (\<lambda>(r, len, shift). nat (int (length (buffer r)) - offset r))")
     (auto simp: in_bounds_def)

declare readVarint.simps [simp del]

definition readBinaryString :: "reader \<Rightarrow> (jsstring \<times> reader) outcome" where
  "readBinaryString r =
     bind (readVarint r 0 0) (\<lambda>(len, r1).
     bind (readBytes len r1) (\<lambda>(data, r2).
     Done (utf8_decode data, r2)))"

definition readVariantFromStream :: "reader \<Rightarrow> (variant \<times> reader) outcome" where
  "readVariantFromStream r =
     bind (readFloat r) (\<lambda>(s, r1).
     bind (readInt r1) (\<lambda>(w, r2).
     bind (readInt r2) (\<lambda>(h, r3).
     Done (\<lparr>Scale = s, Width = w, Height = h\<rparr>, r3))))"

fun readVariantScripts :: "nat \<Rightarrow> reader \<Rightarrow> (jsstring list \<times> reader) outcome" where
  "readVariantScripts 0 r = Done ([], r)"
| "readVariantScripts (Suc n) r =
     bind (readVariantFromStream r) (\<lambda>(v, r1).
     bind (readBinaryString r1) (\<lambda>(s, r2).
     bind (readVariantScripts n r2) (\<lambda>(ss, r3).
     Done (s # ss, r3))))"

definition readScriptStream :: "byte list \<Rightarrow> jsstring list outcome" where
  \<comment> \<open>the body of the \<^verbatim>\<open>try\<close> block of \<^verbatim>\<open>_readScripts\<close>, after decompression\<close>
  "readScriptStream decompressed =
     bind (readBinaryString \<lparr>buffer = decompressed, offset = 0\<rparr>) (\<lambda>(g, s1).
     bind (readInt s1) (\<lambda>(NumberOfVariants, s2).
     bind (readVariantScripts (nat NumberOfVariants) s2) (\<lambda>(ss, s3).
     Done (g # ss))))"

definition readScripts :: "pako \<Rightarrow> reader \<Rightarrow> (jsstring list \<times> reader) outcome" where
  "readScripts P r =
     bind (readInt r) (\<lambda>(len, r1).
     bind (readBytes len r1) (\<lambda>(rawData, r2).
     case ungzip P rawData of
       None \<Rightarrow> Done ([], r2)
     | Some decompressed \<Rightarrow>
         (case readScriptStream decompressed of
            Done res \<Rightarrow> Done (res, r2)
          | Throw e \<Rightarrow> Done ([], r2)
          | OutOfFuel \<Rightarrow> OutOfFuel)))"

fun readControls :: "nat \<Rightarrow> reader \<Rightarrow> jsstring list \<Rightarrow> (control list \<times> reader) outcome" where
  "readControls 0 r cache = Done ([], r)"
| "readControls (Suc n) r cache =
     bind (readCachedString r cache) (\<lambda>(a, r1).
     bind (readCachedString r1 cache) (\<lambda>(b, r2).
     bind (readCachedString r2 cache) (\<lambda>(c, r3).
     bind (readControls n r3 cache) (\<lambda>(cs, r4).
     Done (\<lparr>Name = a, JavaType = b, DesignerType = c\<rparr> # cs, r4)))))"

definition readLayoutHeader :: "pako \<Rightarrow> reader \<Rightarrow> (header \<times> reader) outcome" where
  "readLayoutHeader P r =
     (let h = \<lparr>Version = 0, GridSize = 10, ControlsHeaders = [], Files = [], DesignerScript = []\<rparr>
      in bind (readInt r) (\<lambda>(version, r1).
         if version < 3 then Done (h\<lparr>Version := version\<rparr>, r1)
         else
           let r2 = r1\<lparr>offset := offset r1 + 4\<rparr> in
           bind (if 4 \<le> version then readInt r2 else Done (10, r2)) (\<lambda>(grid, r3).
           bind (loadStringsCache r3) (\<lambda>(cache, r4).
           bind (readInt r4) (\<lambda>(cCount, r5).
           bind (readControls (nat cCount) r5 cache) (\<lambda>(controls, r6).
           bind (readInt r6) (\<lambda>(fCount, r7).
           bind (readStrings (nat fCount) r7) (\<lambda>(files, r8).
           bind (readScripts P r8) (\<lambda>(scripts, r9).
           Done (\<lparr>Version = version, GridSize = grid, ControlsHeaders = controls,
                  Files = files, DesignerScript = scripts\<rparr>, r9))))))))))"

fun readVariants :: "nat \<Rightarrow> reader \<Rightarrow> (variant list \<times> reader) outcome" where
  "readVariants 0 r = Done ([], r)"
| "readVariants (Suc n) r =
     bind (readVariantFromStream r) (\<lambda>(v, r1).
     bind (readVariants n r1) (\<lambda>(vs, r2).
     Done (v # vs, r2)))"

definition convertBjlToJsonFromBytes :: "pako \<Rightarrow> nat \<Rightarrow> byte list \<Rightarrow> design outcome" where
  "convertBjlToJsonFromBytes P fuel bytes =
     bind (readLayoutHeader P \<lparr>buffer = bytes, offset = 0\<rparr>) (\<lambda>(header, r1).
     if Version header < 3 then Throw UnsupportedVersion
     else
       bind (loadStringsCache r1) (\<lambda>(cache, r2).
       bind (readInt r2) (\<lambda>(variantCount, r3).
       bind (readVariants (nat variantCount) r3) (\<lambda>(variants, r4).
       bind (readMap fuel r4 cache) (\<lambda>(data, r5).
       bind (readInt r5) (\<lambda>(footer, r6).
       bind (readSignedByte r6) (\<lambda>(fa, r7).
       bind (readSignedByte r7) (\<lambda>(mi, r8).
       Done \<lparr>LayoutHeader = header, Variants = variants, Data = data,
             FontAwesome = (fa = 1), MaterialIcons = (mi = 1)\<rparr>))))))))"

section \<open>BinaryWriter\<close>

text \<open>
  A writer is kept as the bytes written so far, \<^verbatim>\<open>buffer.slice(0, offset)\<close>;
  \<^verbatim>\<open>ensure\<close> changes the capacity only.
\<close>

type_synonym writer = "byte list"

definition writeByte :: "writer \<Rightarrow> int \<Rightarrow> writer" where
  \<comment> \<open>\<^verbatim>\<open>v & 0xff\<close>\<close>
  "writeByte w v = w @ [word_of_int v]"

definition writeInt :: "writer \<Rightarrow> int \<Rightarrow> writer" where
  \<comment> \<open>\<^verbatim>\<open>v | 0\<close>, little-endian\<close>
  "writeInt w v = w @ le_bytes 4 (word_of_int v :: 32 word)"

definition writeFloat :: "writer \<Rightarrow> jsnum \<Rightarrow> writer" where
  "writeFloat w x = w @ le_bytes 4 (float32_of_num x)"

definition writeBytes :: "writer \<Rightarrow> byte list \<Rightarrow> writer" where
  "writeBytes w bytes = w @ bytes"


definition getBuffer :: "writer \<Rightarrow> byte list" where
  "getBuffer w = w"

section \<open>Coercions\<close>


definition num_is :: "jsnum \<Rightarrow> int \<Rightarrow> bool" where
  "num_is x n = (case x of NInt i \<Rightarrow> i = n | NFlt d \<Rightarrow> f64_integral d \<and> f64_trunc d = n)"

definition strict_eq :: "jsval \<Rightarrow> int \<Rightarrow> bool" where
  \<comment> \<open>\<^verbatim>\<open>v === n\<close> for a number constant \<open>n\<close>\<close>
  "strict_eq v n = (case v of JNum x \<Rightarrow> num_is x n | _ \<Rightarrow> False)"

definition to_number :: "jsval \<Rightarrow> jsnum outcome" where
  \<comment> \<open>ToNumber; strings and objects are not followed\<close>
  "to_number v =
     (case v of JNum x \<Rightarrow> Done x | JUndefined \<Rightarrow> Done (NFlt 0x7FF8000000000000) | JNull \<Rightarrow> Done (NInt 0)
      | JBool b \<Rightarrow> Done (NInt (if b then 1 else 0)) | _ \<Rightarrow> Throw Unmodelled)"

definition to_string :: "jsval \<Rightarrow> jsstring outcome" where
  \<comment> \<open>\<^verbatim>\<open>String(v)\<close>; non-integral numbers, large integers and objects are not followed\<close>
  "to_string v =
     (case v of JStr s \<Rightarrow> Done s | JUndefined \<Rightarrow> Done (js ''undefined'') | JNull \<Rightarrow> Done (js ''null'')
      | JBool b \<Rightarrow> Done (js (if b then ''true'' else ''false''))
      | JNum (NInt i) \<Rightarrow>
          (if \<bar>i\<bar> < 10 ^ 21 then Done ((if i < 0 then js ''-'' else []) @ dec_str (nat \<bar>i\<bar>))
           else Throw Unmodelled)
      | _ \<Rightarrow> Throw Unmodelled)"

section \<open>BJLConverter: encoding\<close>

definition writeString :: "writer \<Rightarrow> jsstring \<Rightarrow> writer" where
  "writeString w s = (let b = utf8_encode s in writeBytes (writeInt w (int (length b))) b)"

definition writeStringV :: "writer \<Rightarrow> jsval \<Rightarrow> writer outcome" where
  \<comment> \<open>\<^verbatim>\<open>_writeString\<close> on a value: \<^verbatim>\<open>encode(undefined)\<close> is the empty string\<close>
  "writeStringV w v =
     (case v of JUndefined \<Rightarrow> Done (writeString w [])
      | _ \<Rightarrow> bind (to_string v) (\<lambda>s. Done (writeString w s)))"

definition writeStringsCacheInOrder ::
  "writer \<Rightarrow> (jsstring \<times> nat) list \<Rightarrow> jsstring list \<Rightarrow> writer" where
  "writeStringsCacheInOrder w cache order = fold (\<lambda>str w'. writeString w' str) order (writeInt w (int (length order)))"

definition writeTempToMain :: "writer \<Rightarrow> writer \<Rightarrow> writer" where
  "writeTempToMain tempWriter mainWriter = writeBytes mainWriter (getBuffer tempWriter)"

definition writeCachedString ::
  "writer \<Rightarrow> (jsstring \<times> nat) list \<Rightarrow> jsstring option \<Rightarrow> writer outcome" where
  "writeCachedString w cache s =
     (if length cache = 0 then Done (writeString w (case s of Some x \<Rightarrow> x | None \<Rightarrow> []))
      else case map_of cache (key_of s) of
             Some i \<Rightarrow> Done (writeInt w (int i))
           | None \<Rightarrow> Throw (CacheMiss (key_of s)))"

definition hex_val :: "16 word \<Rightarrow> nat" where
  "hex_val c = (if 48 \<le> c \<and> c \<le> 57 then unat c - 48
                else if 65 \<le> c \<and> c \<le> 70 then unat c - 55 else unat c - 87)"

definition is_hex :: "16 word \<Rightarrow> bool" where
  "is_hex c = ((48 \<le> c \<and> c \<le> 57) \<or> (65 \<le> c \<and> c \<le> 70) \<or> (97 \<le> c \<and> c \<le> 102))"

fun hex_pairs :: "jsstring \<Rightarrow> byte list" where
  "hex_pairs (a # b # cs) = of_nat (hex_val a * 16 + hex_val b) # hex_pairs cs"
| "hex_pairs cs = []"

definition hexToBytes :: "jsstring \<Rightarrow> byte list" where
  "hexToBytes hex = hex_pairs (filter is_hex hex)"

fun shortsOf :: "jsval list \<Rightarrow> byte list outcome" where
  "shortsOf [] = Done []"
| "shortsOf (x # xs) =
     bind (to_number x) (\<lambda>n.
     bind (shortsOf xs) (\<lambda>bs.
     Done (le_bytes 2 (ucast (toInt32 n) :: 16 word) @ bs)))"

definition shortsToBytes :: "jsval \<Rightarrow> byte list outcome" where
  \<comment> \<open>an array of numbers; \<^verbatim>\<open>shorts.length\<close> of undefined or null raises, of a number or a
      boolean it is undefined and nothing is written\<close>
  "shortsToBytes v =
     (case v of JArray xs \<Rightarrow> shortsOf xs
      | JUndefined \<Rightarrow> Throw TypeError | JNull \<Rightarrow> Throw TypeError
      | JNum x \<Rightarrow> Done [] | JBool b \<Rightarrow> Done []
      | _ \<Rightarrow> Throw Unmodelled)"

definition in_cache :: "jsstring \<Rightarrow> (jsstring \<times> nat) list \<Rightarrow> bool" where
  \<comment> \<open>\<^verbatim>\<open>key in cache\<close>: own or inherited\<close>
  "in_cache k cache = (k \<in> fst ` set cache \<or> k \<in> set proto_names)"

definition remember ::
  "jsstring \<Rightarrow> (jsstring \<times> nat) list \<times> jsstring list \<Rightarrow> (jsstring \<times> nat) list \<times> jsstring list" where
  \<comment> \<open>\<^verbatim>\<open>if (!(key in cache)) { cache[key] = Object.keys(cache).length; order.push(key); }\<close>\<close>
  "remember k st =
     (case st of (cache, order) \<Rightarrow>
        if in_cache k cache then (cache, order) else (cache @ [(k, length cache)], order @ [k]))"

lemma set_own_entries [simp]: "set (own_entries m) = set m"
  by (auto simp: own_entries_def)

lemma size_prop_less: "(k, v) \<in> set m \<Longrightarrow> size v < Suc (size_list (size_prod (\<lambda>x. 0) size) m)"
  by (induction m) auto

lemma size_item_less: "v \<in> set xs \<Longrightarrow> size v < Suc (size_list size xs)"
  by (induction xs) auto

lemma size_prop_le: "kv \<in> set m \<Longrightarrow> size (snd kv) \<le> size_list (size_prod (\<lambda>x. 0) size) m"
  using size_prop_less [of "fst kv" "snd kv" m] by simp

lemma size_zip_le: "kv \<in> set (zip ks xs) \<Longrightarrow> size (snd kv) \<le> size_list size xs"
  using size_item_less [of "snd kv" xs] set_zip_rightD [of "fst kv" "snd kv" ks xs] by simp

function collectStringsInOrder ::
  "jsval \<Rightarrow> (jsstring \<times> nat) list \<times> jsstring list \<Rightarrow> (jsstring \<times> nat) list \<times> jsstring list" where
  "collectStringsInOrder data st =
     (case data of
        JArray xs \<Rightarrow> fold (\<lambda>item st'. collectStringsInOrder item st') xs st
      | JObject m \<Rightarrow>
          fold (\<lambda>kv st'.
                  let key = fst kv; val = snd kv; st1 = remember key st' in
                  case val of
                    JObject vm \<Rightarrow>
                      if get_prop vm (js ''ValueType'') = JUndefined then collectStringsInOrder val st1
                      else if strict_eq (get_prop vm (js ''ValueType'')) CSTRING
                        then (case get_prop vm (js ''Value'') of JStr s \<Rightarrow> remember s st1 | _ \<Rightarrow> st1)
                      else st1
                  | JArray vs \<Rightarrow> collectStringsInOrder val st1
                  | JStr s \<Rightarrow> remember s st1
                  | _ \<Rightarrow> st1)
               (own_entries m) st
      | _ \<Rightarrow> st)"
  by pat_completeness auto
termination
  by (relation "measure (\<lambda>(data, st). size data)")
     (auto dest: size_prop_less size_item_less)

declare collectStringsInOrder.simps [simp del]

fun fold_bind :: "('a \<Rightarrow> 'w \<Rightarrow> 'w outcome) \<Rightarrow> 'a list \<Rightarrow> 'w \<Rightarrow> 'w outcome" where
  \<comment> \<open>a \<^verbatim>\<open>for ... of\<close> loop whose body may raise\<close>
  "fold_bind f [] w = Done w"
| "fold_bind f (x # xs) w = bind (f x w) (fold_bind f xs)"

lemma fold_bind_cong [fundef_cong]:
  "xs = ys \<Longrightarrow> (\<And>x w. x \<in> set ys \<Longrightarrow> f x w = g x w) \<Longrightarrow> fold_bind f xs = fold_bind g ys"
proof (induction ys arbitrary: xs)
  case Nil
  then show ?case by (simp add: fun_eq_iff)
next
  case (Cons y ys)
  have tl: "fold_bind f ys = fold_bind g ys"
    by (rule Cons.IH) (auto intro: Cons.prems(2))
  have hd: "f y = g y"
    by (rule ext) (simp add: Cons.prems(2))
  show ?case
    unfolding Cons.prems(1) by (rule ext) (simp add: tl hd)
qed

definition index_keys :: "nat \<Rightarrow> jsstring list" where
  \<comment> \<open>\<^verbatim>\<open>Object.keys\<close> of an array or of a string\<close>
  "index_keys n = map dec_str [0..<n]"

definition writeMarked :: "writer \<Rightarrow> jsval \<Rightarrow> jsval \<Rightarrow> writer outcome" where
  \<comment> \<open>the branch \<^verbatim>\<open>val.ValueType !== undefined\<close> of \<^verbatim>\<open>_writeMap\<close>: the tag byte, then the
      payload of the five marked kinds\<close>
  "writeMarked w vt v =
     bind (to_number vt) (\<lambda>t.
       let w1 = writeByte w (sint (toInt32 t)) in
       if strict_eq vt CSTRING then writeStringV w1 v
       else if strict_eq vt CFLOAT then bind (to_number v) (\<lambda>x. Done (writeFloat w1 x))
       else if strict_eq vt CCOLOR
         then bind (to_string v) (\<lambda>s. Done (writeBytes w1 (hexToBytes (drop 2 s))))
       else if strict_eq vt RECT32 then bind (shortsToBytes v) (\<lambda>b. Done (writeBytes w1 b))
       else Done w1)"

function writeMap :: "writer \<Rightarrow> jsval \<Rightarrow> (jsstring \<times> nat) list \<Rightarrow> writer outcome"
  and writeEntry :: "writer \<Rightarrow> jsstring \<times> jsval \<Rightarrow> (jsstring \<times> nat) list \<Rightarrow> writer outcome"
where
  "writeMap w m cache =
     (case m of
        JObject ps \<Rightarrow> fold_bind (\<lambda>kv w'. writeEntry w' kv cache) (own_entries ps) w
      | JArray xs \<Rightarrow> fold_bind (\<lambda>kv w'. writeEntry w' kv cache) (zip (index_keys (length xs)) xs) w
      | JStr s \<Rightarrow>
          fold_bind (\<lambda>kv w'.
              bind (writeCachedString w' cache (Some (fst kv))) (\<lambda>w1.
              writeCachedString (writeByte w1 CACHED_STRING) cache (Some [snd kv])))
            (zip (index_keys (length s)) s) w
      | JUndefined \<Rightarrow> Throw TypeError
      | JNull \<Rightarrow> Throw TypeError
      | _ \<Rightarrow> Done w)"
| "writeEntry w kv cache =
     bind (writeCachedString w cache (Some (fst kv))) (\<lambda>w1.
       case snd kv of
         JObject vm \<Rightarrow>
           if get_prop vm (js ''ValueType'') \<noteq> JUndefined
           then writeMarked w1 (get_prop vm (js ''ValueType'')) (get_prop vm (js ''Value''))
           else bind (writeMap (writeByte w1 CMAP) (snd kv) cache) (\<lambda>w2.
                Done (writeByte (writeString w2 []) ENDOFMAP))
       | JArray vs \<Rightarrow>
           bind (writeMap (writeByte w1 CMAP) (snd kv) cache) (\<lambda>w2.
           Done (writeByte (writeString w2 []) ENDOFMAP))
       | JNum x \<Rightarrow>
           if isInteger x then Done (writeInt (writeByte w1 CINT) (sint (toInt32 x))) else Done w1
       | JStr s \<Rightarrow> writeCachedString (writeByte w1 CACHED_STRING) cache (Some s)
       | JBool b \<Rightarrow> Done (writeByte (writeByte w1 BOOL) (if b then 1 else 0))
       | JNull \<Rightarrow> Done (writeByte w1 CNULL)
       | JUndefined \<Rightarrow> Done w1)"
  by pat_completeness auto
termination
  by (relation "measure (\<lambda>x. case x of Inl (w, m, c) \<Rightarrow> 2 * size m + 1
                                       | Inr (w, kv, c) \<Rightarrow> 2 * size (snd kv) + 2)")
     (auto dest: size_prop_le size_zip_le)

declare writeMap.simps [simp del] writeEntry.simps [simp del]

definition writeVariant :: "writer \<Rightarrow> variant \<Rightarrow> writer" where
  "writeVariant w v =
     (let w1 = writeFloat w (if truthy_num (Scale v) then Scale v else NInt 1);
          w2 = writeInt w1 (Width v)
      in writeInt w2 (Height v))"

definition writeAllLayout :: "writer \<Rightarrow> variant list \<Rightarrow> jsval \<Rightarrow> writer outcome" where
  "writeAllLayout w variants data =
     (case collectStringsInOrder data ([], []) of (cache, order) \<Rightarrow>
        let t0 = writeInt [] (int (length variants));
            t1 = fold (\<lambda>v t. writeVariant t v) variants t0
        in bind (writeMap t1 data cache) (\<lambda>t2.
             let t3 = writeByte (writeString t2 []) ENDOFMAP;
                 w1 = writeStringsCacheInOrder w cache order;
                 w2 = writeTempToMain t3 w1
             in Done (writeInt w2 0)))"

function writeVarint :: "writer \<Rightarrow> nat \<Rightarrow> writer" where
  \<comment> \<open>the loop of \<^verbatim>\<open>_writeBinaryString\<close>; \<^verbatim>\<open>len >>>= 7\<close> is taken modulo \<open>2^32\<close>\<close>
  "writeVarint w len =
     (let b = len mod 128; len' = (len mod 2 ^ 32) div 128;
          w' = writeByte w (int (if len' \<noteq> 0 then b + 128 else b))
      in if len' = 0 then w' else writeVarint w' len')"
  by pat_completeness auto
termination
  by (relation "measure (\<lambda>(w, len). len)") (auto intro: le_less_trans [OF div_le_mono [OF mod_less_eq_dividend]])

declare writeVarint.simps [simp del]

definition writeBinaryString :: "writer \<Rightarrow> jsstring \<Rightarrow> writer" where
  \<comment> \<open>the prefix is \<^verbatim>\<open>text.length\<close>, the data are the UTF-8 bytes\<close>
  "writeBinaryString w s =
     (let text = s; raw = utf8_encode text
      in writeBytes (writeVarint w (length text)) raw)"







section \<open>The string table, as specified\<close>

text \<open>Duplicates removed, every string at the place of its first occurrence.\<close>

fun first_seen :: "'a list \<Rightarrow> 'a list" where
  "first_seen [] = []"
| "first_seen (x # xs) = x # removeAll x (first_seen xs)"

text \<open>
  The strings met by one traversal of the value tree, in the order they are met: every key
  of a map, followed by what its value contributes. A bare string contributes itself and a
  nested plain object or array its own traversal; a value marked as inline string
  (ValueType 2) contributes its text when \<open>inline\<close> is set and nothing otherwise.
\<close>

function table_strings :: "bool \<Rightarrow> jsval \<Rightarrow> jsstring list" where
  "table_strings inline data =
     (case data of
        JArray xs \<Rightarrow> concat (map (table_strings inline) xs)
      | JObject m \<Rightarrow>
          concat (map (\<lambda>kv.
                    fst kv #
                    (case snd kv of
                       JObject vm \<Rightarrow>
                         if get_prop vm (js ''ValueType'') = JUndefined
                         then table_strings inline (snd kv)
                         else if inline \<and> strict_eq (get_prop vm (js ''ValueType'')) CSTRING
                           then (case get_prop vm (js ''Value'') of JStr s \<Rightarrow> [s] | _ \<Rightarrow> [])
                         else []
                     | JArray vs \<Rightarrow> table_strings inline (snd kv)
                     | JStr s \<Rightarrow> [s]
                     | _ \<Rightarrow> []))
                  (own_entries m))
      | _ \<Rightarrow> [])"
  by pat_completeness auto
termination
  by (relation "measure (\<lambda>(inline, data). size data)")
     (auto dest: size_prop_less size_item_less)

declare table_strings.simps [simp del]

text \<open>The table while it is built: \<open>absorb\<close> appends the strings not yet known.\<close>

definition absorb :: "jsstring list \<Rightarrow> jsstring list \<Rightarrow> jsstring list" where
  "absorb order xs =
     fold (\<lambda>s acc. if s \<in> set acc \<or> s \<in> set proto_names then acc else acc @ [s]) xs order"

definition enum :: "jsstring list \<Rightarrow> (jsstring \<times> nat) list" where
  "enum order = zip order [0..<length order]"

section \<open>Auxiliary notions\<close>

text \<open>Bytes appended behind a prefix: how a writer that already holds \<open>w\<close> continues.\<close>

definition prepend :: "writer \<Rightarrow> writer outcome \<Rightarrow> writer outcome" where
  "prepend w m = bind m (\<lambda>bs. Done (w @ bs))"

section \<open>A stand-in for the gzip library\<close>

text \<open>
  Used where a statement is run on concrete bytes: the input is stored behind the two
  gzip magic bytes, and anything without them is refused.
\<close>

definition stored :: pako where
  "stored =
     \<lparr>gzip = (\<lambda>opts x. 0x1F # 0x8B # x),
      ungzip = (\<lambda>b. case b of
                  a # c # x \<Rightarrow> if a = 0x1F \<and> c = 0x8B then Some x else None
                | _ \<Rightarrow> None)\<rparr>"



section \<open>Basic facts\<close>

lemma bind_simps [simp]:
  "bind (Done x) f = f x"
  "bind (Throw e) f = Throw e"
  "bind OutOfFuel f = OutOfFuel"
  by (simp_all add: bind_def)

lemma bind_eq_Done: "bind m f = Done y \<longleftrightarrow> (\<exists>x. m = Done x \<and> f x = Done y)"
  by (cases m) simp_all

lemma prepend_eq_Done: "prepend w m = Done w' \<longleftrightarrow> (\<exists>bs. m = Done bs \<and> w' = w @ bs)"
  by (cases m) (auto simp: prepend_def)

lemma length_le_bytes [simp]: "length (le_bytes n w) = n"
  by (induction n arbitrary: w) simp_all

section \<open>The writer only appends\<close>

lemma prepend_simps [simp]:
  "prepend w (Done bs) = Done (w @ bs)"
  "prepend w (Throw e) = Throw e"
  "prepend w OutOfFuel = OutOfFuel"
  by (simp_all add: prepend_def)

lemma prepend_prepend [simp]: "prepend w (prepend v m) = prepend (w @ v) m"
  by (cases m) simp_all

lemma prepend_Nil [simp]: "prepend [] m = m"
  by (cases m) simp_all

lemma bind_prepend: "bind (prepend w m) f = bind m (\<lambda>bs. f (w @ bs))"
  by (cases m) simp_all

lemma prepend_bind: "prepend w (bind m f) = bind m (\<lambda>x. prepend w (f x))"
  by (cases m) simp_all

lemma writeByte_app [simp]: "writeByte (w @ b) v = w @ writeByte b v"
  by (simp add: writeByte_def)

lemma writeInt_app [simp]: "writeInt (w @ b) v = w @ writeInt b v"
  by (simp add: writeInt_def)

lemma writeFloat_app [simp]: "writeFloat (w @ b) v = w @ writeFloat b v"
  by (simp add: writeFloat_def)

lemma writeBytes_app [simp]: "writeBytes (w @ b) v = w @ writeBytes b v"
  by (simp add: writeBytes_def)

lemma writeString_app [simp]: "writeString (w @ b) s = w @ writeString b s"
  by (simp add: writeString_def Let_def)

lemma writeStringV_app [simp]: "writeStringV (w @ b) v = prepend w (writeStringV b v)"
  by (cases v; cases "to_string v") (simp_all add: writeStringV_def)

lemma writeCachedString_app [simp]:
  "writeCachedString (w @ b) cache s = prepend w (writeCachedString b cache s)"
  by (simp add: writeCachedString_def split: option.splits)

lemma writeMarked_app [simp]: "writeMarked (w @ b) vt v = prepend w (writeMarked b vt v)"
proof (cases "to_number vt")
  case (Done t)
  show ?thesis
    unfolding writeMarked_def Done bind_simps Let_def
    by (cases "to_number v"; cases "to_string v"; cases "shortsToBytes v") simp_all
qed (simp_all add: writeMarked_def)

lemma fold_bind_app:
  assumes "\<And>x w b. x \<in> set xs \<Longrightarrow> f x (w @ b) = prepend w (f x b)"
  shows "fold_bind f xs (w @ b) = prepend w (fold_bind f xs b)"
  using assms
proof (induction xs arbitrary: b)
  case Nil
  then show ?case by simp
next
  case (Cons x xs)
  have step: "f x (w @ b) = prepend w (f x b)" by (rule Cons.prems) simp
  have rest: "\<And>v. fold_bind f xs (w @ v) = prepend w (fold_bind f xs v)"
    by (rule Cons.IH) (simp add: Cons.prems)
  show ?case
    by (cases "f x b") (simp_all add: step rest)
qed


lemma writeMap_app: "writeMap (v @ w) m cache = prepend v (writeMap w m cache)"
  and writeEntry_app: "writeEntry (v @ w) kv cache = prepend v (writeEntry w kv cache)"
proof (induction w m cache and w kv cache arbitrary: v and v rule: writeMap_writeEntry.induct)
  case (1 w m cache)
  show ?case
  proof (cases m)
    case (JObject ps)
    have "fold_bind (\<lambda>kv w'. writeEntry w' kv cache) (own_entries ps) (v @ w)
        = prepend v (fold_bind (\<lambda>kv w'. writeEntry w' kv cache) (own_entries ps) w)"
      by (rule fold_bind_app) (rule "1.IH"(2) [OF JObject])
    then show ?thesis
      by (simp add: JObject writeMap.simps [of _ "JObject ps"])
  next
    case (JArray xs)
    have "fold_bind (\<lambda>kv w'. writeEntry w' kv cache) (zip (index_keys (length xs)) xs) (v @ w)
        = prepend v (fold_bind (\<lambda>kv w'. writeEntry w' kv cache) (zip (index_keys (length xs)) xs) w)"
      by (rule fold_bind_app) (rule "1.IH"(1) [OF JArray])
    then show ?thesis
      by (simp add: JArray writeMap.simps [of _ "JArray xs"])
  next
    case (JStr s)
    let ?f = "\<lambda>kv w'. bind (writeCachedString w' cache (Some (fst kv))) (\<lambda>w1.
                writeCachedString (writeByte w1 CACHED_STRING) cache (Some [snd kv]))"
    have step: "?f x (a @ b) = prepend a (?f x b)" for x a b
      by (cases "writeCachedString b cache (Some (fst x))") simp_all
    have "fold_bind ?f (zip (index_keys (length s)) s) (v @ w)
        = prepend v (fold_bind ?f (zip (index_keys (length s)) s) w)"
      by (rule fold_bind_app) (rule step)
    then show ?thesis
      by (simp add: JStr writeMap.simps [of _ "JStr s"])
  qed (simp_all add: writeMap.simps [of _ JUndefined] writeMap.simps [of _ JNull]
        writeMap.simps [of _ "JBool _"] writeMap.simps [of _ "JNum _"])
next
  case (2 w kv cache)
  note unfold = writeEntry.simps [of "v @ w"] writeEntry.simps [of w]
  show ?case
  proof (cases "writeCachedString w cache (Some (fst kv))")
    case (Done w1)
    show ?thesis
    proof (cases "snd kv")
      case (JObject vm)
      show ?thesis
      proof (cases "get_prop vm (js ''ValueType'') \<noteq> JUndefined")
        case True
        then show ?thesis by (simp add: unfold Done JObject)
      next
        case False
        have "writeMap (v @ writeByte w1 CMAP) (snd kv) cache
            = prepend v (writeMap (writeByte w1 CMAP) (snd kv) cache)"
          using False by (intro "2.IH"(2) [OF JObject]) simp
        then show ?thesis
          using False
          by (cases "writeMap (writeByte w1 CMAP) (JObject vm) cache")
             (simp_all add: unfold Done JObject)
      qed
    next
      case (JArray xs)
      have "writeMap (v @ writeByte w1 CMAP) (snd kv) cache
          = prepend v (writeMap (writeByte w1 CMAP) (snd kv) cache)"
        by (rule "2.IH"(1) [OF JArray])
      then show ?thesis
        by (cases "writeMap (writeByte w1 CMAP) (JArray xs) cache")
           (simp_all add: unfold Done JArray)
    qed (simp_all add: unfold Done)
  qed (simp_all add: unfold)
qed

lemma writeMap_frame: "writeMap w m cache = prepend w (writeMap [] m cache)"
  using writeMap_app [of w "[]"] by simp

lemma writeMap_Done_append:
  "writeMap w m cache = Done w' \<Longrightarrow> \<exists>bs. writeMap [] m cache = Done bs \<and> w' = w @ bs"
  by (subst (asm) writeMap_frame) (cases "writeMap [] m cache"; simp)

lemma writeMap_empty [simp]: "writeMap w (JObject []) cache = Done w"
  by (simp add: writeMap.simps own_entries_def)

lemma writeVariant_app [simp]: "writeVariant (w @ b) v = w @ writeVariant b v"
  by (simp add: writeVariant_def Let_def)

lemma fold_writeVariant:
  "fold (\<lambda>v t. writeVariant t v) vs t = t @ concat (map (writeVariant []) vs)"
proof (induction vs arbitrary: t)
  case Nil
  then show ?case by simp
next
  case (Cons v vs)
  have "writeVariant t v = t @ writeVariant [] v"
    using writeVariant_app [of t "[]" v] by simp
  then show ?case by (simp add: Cons.IH)
qed

lemma collect_empty [simp]: "collectStringsInOrder (JObject []) st = st"
  by (simp add: collectStringsInOrder.simps own_entries_def)

lemma writeString_empty [simp]: "writeString w [] = w @ [0, 0, 0, 0]"
  by (simp add: writeString_def writeInt_def writeBytes_def utf8_encode_def eval_nat_numeral)

lemma writeCachedString_grows:
  "writeCachedString w cache s = Done w' \<Longrightarrow> length w < length w'"
  by (auto simp: writeCachedString_def writeString_def writeInt_def writeBytes_def Let_def
      split: if_splits option.splits)

lemma writeStringV_grows: "writeStringV w v = Done w' \<Longrightarrow> length w \<le> length w'"
  by (cases v)
     (auto simp: writeStringV_def writeString_def writeInt_def writeBytes_def Let_def bind_eq_Done)

lemma writeMarked_grows: "writeMarked w vt v = Done w' \<Longrightarrow> length w < length w'"
  by (auto simp: writeMarked_def Let_def bind_eq_Done prepend_eq_Done writeByte_def writeFloat_def
      writeBytes_def split: if_splits dest!: writeStringV_grows)

lemma writeMap_grows: "writeMap w m cache = Done w' \<Longrightarrow> length w \<le> length w'"
  by (auto dest: writeMap_Done_append)

section \<open>Version gate\<close>

text \<open>
  C3. A buffer whose first four bytes, read as a little-endian signed 32-bit integer, are
  below 3 is refused with UnsupportedVersion whatever follows them, for every gzip library
  and every fuel; the header reader has then returned the default header with the
  reader's offset at 4, so nothing after the version field was read.
\<close>

theorem unsupported_version:
  assumes "length v = 4" and "sint (le_word v :: 32 word) < 3"
  shows "convertBjlToJsonFromBytes P fuel (v @ rest) = Throw UnsupportedVersion
       \<and> readLayoutHeader P \<lparr>buffer = v @ rest, offset = 0\<rparr>
           = Done (\<lparr>Version = sint (le_word v :: 32 word), GridSize = 10, ControlsHeaders = [],
                     Files = [], DesignerScript = []\<rparr>,
                   \<lparr>buffer = v @ rest, offset = 4\<rparr>)"
  using assms
  by (simp add: convertBjlToJsonFromBytes_def readLayoutHeader_def readInt_def in_bounds_def
      view_def)

theorem unsupported_version_witness:
  "length [2, 0, 0, 0 :: byte] = 4 \<and> sint (le_word [2, 0, 0, 0] :: 32 word) < 3
   \<and> convertBjlToJsonFromBytes stored 0 ([2, 0, 0, 0] @ [7, 7, 7]) = Throw UnsupportedVersion
   \<and> readLayoutHeader stored \<lparr>buffer = [2, 0, 0, 0] @ [7, 7, 7], offset = 0\<rparr>
       = Done (\<lparr>Version = 2, GridSize = 10, ControlsHeaders = [], Files = [],
                 DesignerScript = []\<rparr>,
               \<lparr>buffer = [2, 0, 0, 0] @ [7, 7, 7], offset = 4\<rparr>)"
proof -
  have len: "length [2, 0, 0, 0 :: byte] = 4" by simp
  have ver: "sint (le_word [2, 0, 0, 0] :: 32 word) < 3" by simp
  have val: "sint (le_word [2, 0, 0, 0] :: 32 word) = 2" by simp
  show ?thesis
    using unsupported_version [OF len ver, of stored 0 "[7, 7, 7]"] len ver
    unfolding val by blast
qed

section \<open>Unrecognised tags\<close>



section \<open>Empty maps\<close>

text \<open>
  C9. An empty map contributes no entry bytes: what is written for it is the trailing
  empty-string key, four zero bytes, and the EndOfMap tag 4. For an empty root map the
  body is the empty string table (a zero count), the variant count and triples, those five
  bytes, and the footer integer 0. For an empty nested map the entry is its key, the tag
  byte 3 and those five bytes.
\<close>

theorem empty_map_encoding:
  "writeAllLayout w variants (JObject [])
     = Done (w @ [0, 0, 0, 0] @ writeInt [] (int (length variants))
               @ concat (map (writeVariant []) variants) @ [0, 0, 0, 0, 4] @ [0, 0, 0, 0])
   \<and> writeEntry w (k, JObject []) cache
     = bind (writeCachedString w cache (Some k)) (\<lambda>w1. Done (w1 @ [3] @ [0, 0, 0, 0, 4]))"
proof
  show "writeAllLayout w variants (JObject [])
     = Done (w @ [0, 0, 0, 0] @ writeInt [] (int (length variants))
               @ concat (map (writeVariant []) variants) @ [0, 0, 0, 0, 4] @ [0, 0, 0, 0])"
    by (simp add: writeAllLayout_def fold_writeVariant writeStringsCacheInOrder_def
        writeTempToMain_def getBuffer_def writeBytes_def writeByte_def ENDOFMAP_def)
       (simp add: writeInt_def eval_nat_numeral)
next
  have "get_prop [] (js ''ValueType'') = JUndefined"
    by (simp add: get_prop_def)
  then show "writeEntry w (k, JObject []) cache
     = bind (writeCachedString w cache (Some k)) (\<lambda>w1. Done (w1 @ [3] @ [0, 0, 0, 0, 4]))"
    by (cases "writeCachedString w cache (Some k)")
       (simp_all add: writeEntry.simps writeByte_def CMAP_def ENDOFMAP_def)
qed


theorem empty_map_encoding_witness:
  "writeAllLayout [9] [] (JObject [])
     = Done ([9] @ [0, 0, 0, 0] @ [0, 0, 0, 0] @ [0, 0, 0, 0, 4] @ [0, 0, 0, 0])
   \<and> writeEntry [9] (js ''m'', JObject []) [(js ''m'', 0)]
     = Done ([9] @ [0, 0, 0, 0] @ [3] @ [0, 0, 0, 0, 4])"
  using empty_map_encoding [of "[9]" "[]" "js ''m''" "[(js ''m'', 0)]"]
  by (simp add: writeInt_def writeCachedString_def key_of_def eval_nat_numeral)

section \<open>Values that are written without a tag\<close>

text \<open>
  C10. For an entry whose value is a number that is not an integer, or undefined, the map
  writer emits the key and nothing else; an entry of any other kind that is written without
  an error gets at least a tag byte behind its key. For the map with the single entry
  \<open>k \<mapsto> 2.5\<close> and the string table \<open>[k]\<close> the entry bytes are the key index alone, and
  reading them back, followed by the trailing key and EndOfMap, meets the tag 0, stops there
  and returns the empty map.
\<close>

theorem untagged_values:
  "(\<not> isInteger x \<longrightarrow> writeEntry w (k, JNum x) cache = writeCachedString w cache (Some k))
   \<and> writeEntry w (k, JUndefined) cache = writeCachedString w cache (Some k)
   \<and> (writeCachedString w cache (Some k) = Done w1 \<longrightarrow> writeEntry w (k, v) cache = Done w2 \<longrightarrow>
        (w2 = w1) = (v = JUndefined \<or> (\<exists>y. v = JNum y \<and> \<not> isInteger y)))
   \<and> writeMap [] (JObject [(js ''k'', JNum (NFlt 0x4004000000000000))]) [(js ''k'', 0)] = Done [0, 0, 0, 0]
   \<and> readMap (Suc n) \<lparr>buffer = [0, 0, 0, 0] @ [0, 0, 0, 0, 4], offset = 0\<rparr> [js ''k'']
     = Done (JObject [], \<lparr>buffer = [0, 0, 0, 0] @ [0, 0, 0, 0, 4], offset = 5\<rparr>)"
proof (intro conjI impI)
  have frac: "\<not> isInteger (NFlt 0x4004000000000000)"
    by (simp add: isInteger_def f64_integral_def f64_is_zero_def f64_exp_def f64_man_def)
  have plain: "\<not> is_array_index (js ''k'')"
    by (simp add: is_array_index_def js_def)
  show "writeMap [] (JObject [(js ''k'', JNum (NFlt 0x4004000000000000))]) [(js ''k'', 0)]
      = Done [0, 0, 0, 0]"
    using frac plain
    by (simp add: writeMap.simps own_entries_def writeEntry.simps writeCachedString_def key_of_def
        writeInt_def eval_nat_numeral)
  let ?b = "[0, 0, 0, 0, 0, 0, 0, 0, 4] :: byte list"
  have idx: "readInt \<lparr>buffer = ?b, offset = 0\<rparr> = Done (0, \<lparr>buffer = ?b, offset = 4\<rparr>)"
    by (simp add: readInt_def in_bounds_def view_def)
  have key: "readCachedString \<lparr>buffer = ?b, offset = 0\<rparr> [js ''k'']
      = Done (Some (js ''k''), \<lparr>buffer = ?b, offset = 4\<rparr>)"
    by (simp add: readCachedString_def idx array_get_def)
  have tag: "readSignedByte \<lparr>buffer = ?b, offset = 4\<rparr> = Done (0, \<lparr>buffer = ?b, offset = 5\<rparr>)"
    by (simp add: readSignedByte_def in_bounds_def view_def)
  show "readMap (Suc n) \<lparr>buffer = [0, 0, 0, 0] @ [0, 0, 0, 0, 4], offset = 0\<rparr> [js ''k'']
      = Done (JObject [], \<lparr>buffer = [0, 0, 0, 0] @ [0, 0, 0, 0, 4], offset = 5\<rparr>)"
    by (simp add: readMap_def key tag TYPE_CODES)
  show "writeEntry w (k, JNum x) cache = writeCachedString w cache (Some k)" if "\<not> isInteger x"
    using that by (cases "writeCachedString w cache (Some k)") (simp_all add: writeEntry.simps)
  show "writeEntry w (k, JUndefined) cache = writeCachedString w cache (Some k)"
    by (cases "writeCachedString w cache (Some k)") (simp_all add: writeEntry.simps)
  assume key: "writeCachedString w cache (Some k) = Done w1"
    and all: "writeEntry w (k, v) cache = Done w2"
  show "(w2 = w1) = (v = JUndefined \<or> (\<exists>y. v = JNum y \<and> \<not> isInteger y))"
  proof (cases v)
    case JUndefined
    then show ?thesis using key all by (simp add: writeEntry.simps)
  next
    case JNull
    then show ?thesis using key all by (auto simp: writeEntry.simps writeByte_def)
  next
    case (JBool b)
    then show ?thesis using key all by (auto simp: writeEntry.simps writeByte_def)
  next
    case (JNum y)
    then show ?thesis
      using key all by (auto simp: writeEntry.simps writeByte_def writeInt_def split: if_splits)
  next
    case (JStr s)
    then show ?thesis
      using key all
      by (auto simp: writeEntry.simps writeByte_def prepend_eq_Done dest!: writeCachedString_grows)
  next
    case (JArray xs)
    then show ?thesis
      using key all
      by (auto simp: writeEntry.simps writeByte_def bind_eq_Done prepend_eq_Done
          dest!: writeMap_grows)
  next
    case (JObject vm)
    then show ?thesis
      using key all
      by (auto simp: writeEntry.simps writeByte_def bind_eq_Done prepend_eq_Done split: if_splits
          dest!: writeMap_grows writeMarked_grows)
  qed
qed

theorem untagged_values_witness:
  "\<not> isInteger (NFlt 0x4004000000000000)
   \<and> writeEntry [] (js ''k'', JNum (NFlt 0x4004000000000000)) [(js ''k'', 0)] = Done [0, 0, 0, 0]
   \<and> writeEntry [] (js ''k'', JUndefined) [(js ''k'', 0)] = Done [0, 0, 0, 0]
   \<and> writeEntry [] (js ''k'', JNull) [(js ''k'', 0)] \<noteq> Done [0, 0, 0, 0]
   \<and> readMap 1 \<lparr>buffer = [0, 0, 0, 0] @ [0, 0, 0, 0, 4], offset = 0\<rparr> [js ''k'']
     = Done (JObject [], \<lparr>buffer = [0, 0, 0, 0] @ [0, 0, 0, 0, 4], offset = 5\<rparr>)"
proof -
  have frac: "\<not> isInteger (NFlt 0x4004000000000000)"
    by (simp add: isInteger_def f64_integral_def f64_is_zero_def f64_exp_def f64_man_def)
  have key: "writeCachedString [] [(js ''k'', 0)] (Some (js ''k'')) = Done [0, 0, 0, 0]"
    by (simp add: writeCachedString_def key_of_def writeInt_def eval_nat_numeral)
  have null: "writeEntry [] (js ''k'', JNull) [(js ''k'', 0)] = Done [0, 0, 0, 0, 12]"
    by (simp add: writeEntry.simps key writeByte_def CNULL_def)
  note all = untagged_values [of "NFlt 0x4004000000000000" "[]" "js ''k''" "[(js ''k'', 0)]"
      "[0, 0, 0, 0]" JNull "[0, 0, 0, 0, 12]" 0]
  show ?thesis
    using all frac key null by simp
qed

section \<open>The length prefix of a script string\<close>

text \<open>
  C6. The string \<^verbatim>\<open>"\u00e9"\<close> has one code unit and two UTF-8 bytes. The writer emits the
  prefix 1, the number of code units, and then both bytes; the reader takes one byte of
  string data, decodes it to the replacement character and leaves the second byte unread.
\<close>

theorem binary_string_prefix_counts_code_units:
  "length [0xE9 :: 16 word] = 1
   \<and> utf8_encode [0xE9] = [0xC3, 0xA9]
   \<and> writeBinaryString [] [0xE9] = [1, 0xC3, 0xA9]
   \<and> readBinaryString \<lparr>buffer = [1, 0xC3, 0xA9], offset = 0\<rparr>
     = Done ([0xFFFD], \<lparr>buffer = [1, 0xC3, 0xA9], offset = 2\<rparr>)"
proof -
  let ?b = "[1, 0xC3, 0xA9] :: byte list"
  have enc: "utf8_encode [0xE9] = [0xC3, 0xA9]"
    by (simp add: utf8_encode_def utf8_of_cp_def is_high_surrogate_def is_low_surrogate_def)
  have pre: "writeVarint [] (Suc 0) = [1]"
    apply (subst writeVarint.simps)
    apply (simp add: Let_def)
    apply (simp add: writeByte_def)
    done
  have wr: "writeBinaryString [] [0xE9] = ?b"
    by (simp add: writeBinaryString_def enc pre writeBytes_def)
  have len: "readVarint \<lparr>buffer = ?b, offset = 0\<rparr> 0 0 = Done (1, \<lparr>buffer = ?b, offset = 1\<rparr>)"
    apply (subst readVarint.simps)
    apply (simp add: in_bounds_def view_def Let_def)
    done
  have dat: "readBytes 1 \<lparr>buffer = ?b, offset = 1\<rparr> = Done ([0xC3], \<lparr>buffer = ?b, offset = 2\<rparr>)"
    by (simp add: readBytes_def js_slice_def)
  have dec: "utf8_decode [0xC3] = [0xFFFD]"
    by (simp add: utf8_decode_def utf16_of_cp_def)
  have rd: "readBinaryString \<lparr>buffer = ?b, offset = 0\<rparr> = Done ([0xFFFD], \<lparr>buffer = ?b, offset = 2\<rparr>)"
    by (simp add: readBinaryString_def len dat dec)
  show ?thesis
    using enc wr rd by simp
qed

section \<open>Determinism of the encoder\<close>



section \<open>The script block of the header\<close>

lemma readVarint_terminates: "readVarint r len shift \<noteq> OutOfFuel"
proof (induction r len shift rule: readVarint.induct)
  case (1 r len shift)
  show ?case
    using "1.IH" by (subst readVarint.simps) (auto simp: Let_def)
qed

lemma readVariantScripts_length:
  "readVariantScripts k r = Done (ss, r') \<Longrightarrow> length ss = k"
  by (induction k arbitrary: r ss r') (auto simp: bind_eq_Done)

lemma readVariantScripts_terminates: "readVariantScripts k r \<noteq> OutOfFuel"
proof (induction k arbitrary: r)
  case 0
  then show ?case by simp
next
  case (Suc k)
  have "readVarint r' 0 0 \<noteq> OutOfFuel" for r' by (rule readVarint_terminates)
  then show ?case
    using Suc
    by (auto simp: bind_def readVariantFromStream_def readFloat_def readInt_def readBinaryString_def
        readBytes_def split: outcome.splits if_splits)
qed

lemma readScriptStream_terminates: "readScriptStream d \<noteq> OutOfFuel"
  using readVarint_terminates readVariantScripts_terminates
  by (auto simp: readScriptStream_def bind_def readBinaryString_def readBytes_def readInt_def
      split: outcome.splits if_splits)

text \<open>
  C7, as the code has it. Once the length and the raw bytes of the script block are read:
  when decompression fails the script list is empty and the reader stands behind the block;
  when it succeeds and reading the decompressed stream raises (it ends early), the list is
  empty as well; when the stream is read to the end, the list is the global script followed
  by one script per variant, \<open>1 + max 0 n\<close> entries for the variant count \<open>n\<close> read from the
  stream. The block's reader always returns.
\<close>

theorem script_block_leniency:
  assumes "readInt r = Done (len, r1)" and "readBytes len r1 = Done (raw, r2)"
  shows "(ungzip P raw = None \<longrightarrow> readScripts P r = Done ([], r2))
       \<and> (\<forall>d. ungzip P raw = Some d \<longrightarrow>
            (case readScriptStream d of
               Throw e \<Rightarrow> readScripts P r = Done ([], r2)
             | Done ss \<Rightarrow>
                 readScripts P r = Done (ss, r2)
                 \<and> (\<exists>g s1 n s2. readBinaryString \<lparr>buffer = d, offset = 0\<rparr> = Done (g, s1)
                       \<and> readInt s1 = Done (n, s2) \<and> length ss = 1 + nat n)
             | OutOfFuel \<Rightarrow> False))"
proof (intro conjI allI impI)
  assume "ungzip P raw = None"
  then show "readScripts P r = Done ([], r2)"
    using assms by (simp add: readScripts_def)
next
  fix d
  assume d: "ungzip P raw = Some d"
  show "case readScriptStream d of
               Throw e \<Rightarrow> readScripts P r = Done ([], r2)
             | Done ss \<Rightarrow>
                 readScripts P r = Done (ss, r2)
                 \<and> (\<exists>g s1 n s2. readBinaryString \<lparr>buffer = d, offset = 0\<rparr> = Done (g, s1)
                       \<and> readInt s1 = Done (n, s2) \<and> length ss = 1 + nat n)
             | OutOfFuel \<Rightarrow> False"
  proof (cases "readScriptStream d")
    case (Done ss)
    then obtain g s1 n s2 tl s3 where
      g: "readBinaryString \<lparr>buffer = d, offset = 0\<rparr> = Done (g, s1)"
      and n: "readInt s1 = Done (n, s2)"
      and tl: "readVariantScripts (nat n) s2 = Done (tl, s3)" and ss: "ss = g # tl"
      by (auto simp: readScriptStream_def bind_eq_Done)
    have "length ss = 1 + nat n"
      using readVariantScripts_length [OF tl] ss by simp
    then show ?thesis
      using assms d Done g n by (auto simp: readScripts_def)
  next
    case (Throw e)
    then show ?thesis using assms d by (simp add: readScripts_def)
  next
    case OutOfFuel
    then show ?thesis using readScriptStream_terminates by simp
  qed
qed

theorem script_block_leniency_witness:
  "readInt \<lparr>buffer = [2, 0, 0, 0, 9, 9], offset = 0\<rparr>
     = Done (2, \<lparr>buffer = [2, 0, 0, 0, 9, 9], offset = 4\<rparr>)
   \<and> readBytes 2 \<lparr>buffer = [2, 0, 0, 0, 9, 9], offset = 4\<rparr>
     = Done ([9, 9], \<lparr>buffer = [2, 0, 0, 0, 9, 9], offset = 6\<rparr>)
   \<and> ungzip stored [9, 9] = None
   \<and> readScripts stored \<lparr>buffer = [2, 0, 0, 0, 9, 9], offset = 0\<rparr>
     = Done ([], \<lparr>buffer = [2, 0, 0, 0, 9, 9], offset = 6\<rparr>)"
proof -
  let ?b = "[2, 0, 0, 0, 9, 9] :: byte list"
  have len: "readInt \<lparr>buffer = ?b, offset = 0\<rparr> = Done (2, \<lparr>buffer = ?b, offset = 4\<rparr>)"
    by (simp add: readInt_def in_bounds_def view_def)
  have raw: "readBytes 2 \<lparr>buffer = ?b, offset = 4\<rparr> = Done ([9, 9], \<lparr>buffer = ?b, offset = 6\<rparr>)"
    by (simp add: readBytes_def js_slice_def)
  have gz: "ungzip stored [9, 9] = None"
    by (simp add: stored_def)
  show ?thesis
    using script_block_leniency [OF len raw, of stored] len raw gz by simp
qed

text \<open>
  C7 as stated fails: the block below decompresses, its stream holds an empty global script
  and the variant count 1 and then ends, and the script list is empty rather than of length 2.
\<close>

theorem script_block_truncated_stream:
  "ungzip stored [0x1F, 0x8B, 0, 1, 0, 0, 0] = Some [0, 1, 0, 0, 0]
   \<and> readBinaryString \<lparr>buffer = [0, 1, 0, 0, 0], offset = 0\<rparr>
     = Done ([], \<lparr>buffer = [0, 1, 0, 0, 0], offset = 1\<rparr>)
   \<and> readInt \<lparr>buffer = [0, 1, 0, 0, 0], offset = 1\<rparr>
     = Done (1, \<lparr>buffer = [0, 1, 0, 0, 0], offset = 5\<rparr>)
   \<and> readScripts stored \<lparr>buffer = [7, 0, 0, 0, 0x1F, 0x8B, 0, 1, 0, 0, 0], offset = 0\<rparr>
     = Done ([], \<lparr>buffer = [7, 0, 0, 0, 0x1F, 0x8B, 0, 1, 0, 0, 0], offset = 11\<rparr>)
   \<and> length ([] :: jsstring list) \<noteq> 1 + nat 1"
proof -
  let ?d = "[0, 1, 0, 0, 0] :: byte list"
  let ?b = "[7, 0, 0, 0, 0x1F, 0x8B, 0, 1, 0, 0, 0] :: byte list"
  have gz: "ungzip stored [0x1F, 0x8B, 0, 1, 0, 0, 0] = Some ?d"
    by (simp add: stored_def)
  have vi: "readVarint \<lparr>buffer = ?d, offset = 0\<rparr> 0 0 = Done (0, \<lparr>buffer = ?d, offset = 1\<rparr>)"
    apply (subst readVarint.simps)
    apply (simp add: in_bounds_def view_def Let_def)
    done
  have em: "readBytes 0 \<lparr>buffer = ?d, offset = 1\<rparr> = Done ([], \<lparr>buffer = ?d, offset = 1\<rparr>)"
    by (simp add: readBytes_def js_slice_def)
  have g: "readBinaryString \<lparr>buffer = ?d, offset = 0\<rparr> = Done ([], \<lparr>buffer = ?d, offset = 1\<rparr>)"
    by (simp add: readBinaryString_def vi em utf8_decode_def)
  have n: "readInt \<lparr>buffer = ?d, offset = 1\<rparr> = Done (1, \<lparr>buffer = ?d, offset = 5\<rparr>)"
    by (simp add: readInt_def in_bounds_def view_def)
  have fl: "readFloat \<lparr>buffer = ?d, offset = 5\<rparr> = Throw RangeError"
    by (simp add: readFloat_def in_bounds_def)
  have st: "readScriptStream ?d = Throw RangeError"
    by (simp add: readScriptStream_def g n readVariantFromStream_def fl)
  have len: "readInt \<lparr>buffer = ?b, offset = 0\<rparr> = Done (7, \<lparr>buffer = ?b, offset = 4\<rparr>)"
    by (simp add: readInt_def in_bounds_def view_def)
  have raw: "readBytes 7 \<lparr>buffer = ?b, offset = 4\<rparr>
      = Done ([0x1F, 0x8B, 0, 1, 0, 0, 0], \<lparr>buffer = ?b, offset = 11\<rparr>)"
    by (simp add: readBytes_def js_slice_def)
  have "readScripts stored \<lparr>buffer = ?b, offset = 0\<rparr> = Done ([], \<lparr>buffer = ?b, offset = 11\<rparr>)"
    by (simp add: readScripts_def len raw gz st)
  then show ?thesis
    using gz g n by simp
qed

section \<open>The body string table\<close>

lemma absorb_Nil [simp]: "absorb order [] = order"
  by (simp add: absorb_def)

lemma absorb_Cons:
  "absorb order (x # xs)
     = absorb (if x \<in> set order \<or> x \<in> set proto_names then order else order @ [x]) xs"
  by (simp add: absorb_def)

lemma absorb_append: "absorb order (xs @ ys) = absorb (absorb order xs) ys"
  by (simp add: absorb_def)

lemma enum_snoc: "enum (order @ [k]) = enum order @ [(k, length order)]"
  by (simp add: enum_def)

lemma fst_set_enum: "fst ` set (enum order) = set order"
  by (simp add: enum_def map_fst_zip flip: set_map)

lemma length_enum [simp]: "length (enum order) = length order"
  by (simp add: enum_def)

lemma remember_enum:
  "remember k (enum order, order) = (enum (absorb order [k]), absorb order [k])"
  by (simp add: remember_def in_cache_def fst_set_enum absorb_Cons enum_snoc)

lemma fold_absorb:
  assumes "\<And>x order. x \<in> set xs \<Longrightarrow> f x (enum order, order)
             = (enum (absorb order (g x)), absorb order (g x))"
  shows "fold f xs (enum order, order)
           = (enum (absorb order (concat (map g xs))), absorb order (concat (map g xs)))"
  using assms
proof (induction xs arbitrary: order)
  case Nil
  then show ?case by simp
next
  case (Cons x xs)
  then show ?case by (simp add: absorb_append)
qed

lemma collect_absorb:
  "collectStringsInOrder data (enum order, order)
     = (enum (absorb order (table_strings True data)), absorb order (table_strings True data))"
proof (induction data "(enum order, order)" arbitrary: order rule: collectStringsInOrder.induct)
  case (1 data)
  show ?case
  proof (cases data)
    case (JArray xs)
    have "fold (\<lambda>item st'. collectStringsInOrder item st') xs (enum order, order)
        = (enum (absorb order (concat (map (table_strings True) xs))),
           absorb order (concat (map (table_strings True) xs)))"
      by (rule fold_absorb) (rule "1.hyps"(1) [OF JArray])
    then show ?thesis
      by (simp add: JArray collectStringsInOrder.simps [of "JArray xs"]
          table_strings.simps [of _ "JArray xs"])
  next
    case obj: (JObject m)
    let ?f = "\<lambda>kv st'.
                  let key = fst kv; val = snd kv; st1 = remember key st' in
                  case val of
                    JObject vm \<Rightarrow>
                      if get_prop vm (js ''ValueType'') = JUndefined then collectStringsInOrder val st1
                      else if strict_eq (get_prop vm (js ''ValueType'')) CSTRING
                        then (case get_prop vm (js ''Value'') of JStr s \<Rightarrow> remember s st1 | _ \<Rightarrow> st1)
                      else st1
                  | JArray vs \<Rightarrow> collectStringsInOrder val st1
                  | JStr s \<Rightarrow> remember s st1
                  | _ \<Rightarrow> st1"
    let ?g = "\<lambda>kv. fst kv #
                    (case snd kv of
                       JObject vm \<Rightarrow>
                         if get_prop vm (js ''ValueType'') = JUndefined
                         then table_strings True (snd kv)
                         else if True \<and> strict_eq (get_prop vm (js ''ValueType'')) CSTRING
                           then (case get_prop vm (js ''Value'') of JStr s \<Rightarrow> [s] | _ \<Rightarrow> [])
                         else []
                     | JArray vs \<Rightarrow> table_strings True (snd kv)
                     | JStr s \<Rightarrow> [s]
                     | _ \<Rightarrow> [])"
    have step: "?f kv (enum order', order') = (enum (absorb order' (?g kv)), absorb order' (?g kv))"
      if kv: "kv \<in> set (own_entries m)" for kv order'
    proof -
      define o1 where "o1 = absorb order' [fst kv]"
      have rem: "remember (fst kv) (enum order', order') = (enum o1, o1)"
        unfolding o1_def by (rule remember_enum)
      have app: "absorb order' (fst kv # ys) = absorb o1 ys" for ys
        unfolding o1_def by (simp add: absorb_Cons)
      show ?thesis
      proof (cases "snd kv")
        case (JObject vm)
        show ?thesis
        proof (cases "get_prop vm (js ''ValueType'') = JUndefined")
          case True
          have "collectStringsInOrder (snd kv) (enum o1, o1)
              = (enum (absorb o1 (table_strings True (snd kv))),
                 absorb o1 (table_strings True (snd kv)))"
            by (rule "1.hyps"(3) [OF obj kv refl refl rem [symmetric] JObject True])
          then show ?thesis
            using True by (simp add: Let_def rem JObject app)
        next
          case False
          then show ?thesis
            by (cases "get_prop vm (js ''Value'')")
               (simp_all add: Let_def rem JObject app remember_enum)
        qed
      next
        case (JArray vs)
        have "collectStringsInOrder (snd kv) (enum o1, o1)
            = (enum (absorb o1 (table_strings True (snd kv))),
               absorb o1 (table_strings True (snd kv)))"
          by (rule "1.hyps"(2) [OF obj kv refl refl rem [symmetric] JArray])
        then show ?thesis
          by (simp add: Let_def rem JArray app)
      next
        case (JStr s)
        then show ?thesis
          by (simp add: Let_def rem app remember_enum)
      qed (simp_all add: Let_def rem app)
    qed
    have "fold ?f (own_entries m) (enum order, order)
        = (enum (absorb order (concat (map ?g (own_entries m)))),
           absorb order (concat (map ?g (own_entries m))))"
      by (rule fold_absorb) (rule step)
    then show ?thesis
      by (simp add: obj collectStringsInOrder.simps [of "JObject m"]
          table_strings.simps [of _ "JObject m"])
  qed (insert collectStringsInOrder.simps [of data "(enum order, order)"]
        table_strings.simps [of True data], simp_all)
qed

lemma filter_removeAll: "filter P (removeAll x ys) = filter (\<lambda>s. P s \<and> s \<noteq> x) ys"
  by (induction ys) auto

lemma absorb_first_seen:
  "absorb order xs
     = order @ filter (\<lambda>s. s \<notin> set order) (first_seen (filter (\<lambda>s. s \<notin> set proto_names) xs))"
proof (induction xs arbitrary: order)
  case Nil
  then show ?case by simp
next
  case (Cons x xs)
  show ?case
    by (auto simp: absorb_Cons Cons.IH filter_removeAll intro!: filter_cong)
qed

lemma fold_writeString:
  "fold (\<lambda>str w'. writeString w' str) order w = w @ concat (map (writeString []) order)"
proof (induction order arbitrary: w)
  case Nil
  then show ?case by simp
next
  case (Cons s order)
  have "writeString w s = w @ writeString [] s"
    using writeString_app [of w "[]" s] by simp
  then show ?case by (simp add: Cons.IH)
qed

text \<open>
  C5, as the code has it. The pre-pass collects the map keys, the bare string values and
  also the text of the values marked as inline strings (ValueType 2), apart from strings
  that name a property inherited from \<^verbatim>\<open>Object.prototype\<close>; the table holds each string once,
  at the place of its first occurrence in the traversal, the index of a string is its
  position, and the table is written as its count followed by the strings in that order.
\<close>

theorem string_table:
  assumes "collectStringsInOrder data ([], []) = (cache, order)"
  shows "order = first_seen (filter (\<lambda>s. s \<notin> set proto_names) (table_strings True data))
       \<and> cache = zip order [0..<length order]
       \<and> writeStringsCacheInOrder w cache order
           = w @ writeInt [] (int (length order)) @ concat (map (writeString []) order)"
proof -
  have "collectStringsInOrder data (enum [], []) = (cache, order)"
    using assms by (simp add: enum_def)
  then have "cache = enum order" and "order = absorb [] (table_strings True data)"
    by (auto simp: collect_absorb)
  moreover have "writeInt w n = w @ writeInt [] n" for n
    using writeInt_app [of w "[]" n] by simp
  ultimately show ?thesis
    by (simp add: absorb_first_seen enum_def writeStringsCacheInOrder_def fold_writeString)
qed

lemma get_ValueType_marked [simp]:
  "get_prop [(js ''ValueType'', a), (js ''Value'', b)] (js ''ValueType'') = a"
  by (simp add: get_prop_def)

lemma get_Value_marked [simp]:
  "get_prop [(js ''ValueType'', a), (js ''Value'', b)] (js ''Value'') = b"
  by (simp add: get_prop_def js_def)

lemma own_entries_single: "own_entries [kv] = [kv]"
  by (simp add: own_entries_def)

lemma inline_example:
  "table_strings inline (JObject [(js ''k'', marked CSTRING (JStr (js ''v'')))])
     = (if inline then [js ''k'', js ''v''] else [js ''k''])"
  by (simp add: table_strings.simps [of _ "JObject _"] own_entries_single marked_def strict_eq_def
      num_is_def)

lemma plain_names: "js ''k'' \<notin> set proto_names" "js ''v'' \<notin> set proto_names"
  by (simp_all add: proto_names_def js_def)

lemma collect_example:
  "collectStringsInOrder (JObject [(js ''k'', marked CSTRING (JStr (js ''v'')))]) ([], [])
     = ([(js ''k'', 0), (js ''v'', 1)], [js ''k'', js ''v''])"
proof -
  have "js ''k'' \<noteq> js ''v''" by (simp add: js_def)
  then have "absorb [] [js ''k'', js ''v''] = [js ''k'', js ''v'']"
    using plain_names by (simp add: absorb_Cons)
  then show ?thesis
    using collect_absorb [of "JObject [(js ''k'', marked CSTRING (JStr (js ''v'')))]" "[]"]
    by (simp add: inline_example enum_def upt_rec)
qed

theorem string_table_witness:
  "collectStringsInOrder (JObject [(js ''k'', marked CSTRING (JStr (js ''v'')))]) ([], [])
     = ([(js ''k'', 0), (js ''v'', 1)], [js ''k'', js ''v''])
   \<and> [js ''k'', js ''v'']
     = first_seen (filter (\<lambda>s. s \<notin> set proto_names)
         (table_strings True (JObject [(js ''k'', marked CSTRING (JStr (js ''v'')))])))
   \<and> writeStringsCacheInOrder [] [(js ''k'', 0), (js ''v'', 1)] [js ''k'', js ''v'']
     = writeInt [] 2 @ writeString [] (js ''k'') @ writeString [] (js ''v'')"
proof -
  note table = string_table [OF collect_example, of "[]"]
  have "writeStringsCacheInOrder [] [(js ''k'', 0), (js ''v'', 1)] [js ''k'', js ''v'']
      = writeInt [] 2 @ writeString [] (js ''k'') @ writeString [] (js ''v'')"
    using table [THEN conjunct2, THEN conjunct2] by simp
  then show ?thesis
    using table [THEN conjunct1] collect_example by blast
qed

text \<open>
  C5 as stated fails: for the map \<open>{k: {ValueType: 2, Value: v}}\<close> the table is \<open>[k, v]\<close>,
  while the keys and bare strings alone give \<open>[k]\<close>.
\<close>

theorem inline_strings_are_collected:
  "snd (collectStringsInOrder (JObject [(js ''k'', marked CSTRING (JStr (js ''v'')))]) ([], []))
     = [js ''k'', js ''v'']
   \<and> first_seen (filter (\<lambda>s. s \<notin> set proto_names)
         (table_strings False (JObject [(js ''k'', marked CSTRING (JStr (js ''v'')))])))
     = [js ''k'']
   \<and> [js ''k'', js ''v''] \<noteq> [js ''k'']"
  using plain_names by (simp add: collect_example inline_example)

end
